theory Spec2Isabelle
  imports
    Complex_Main
    "HOL-Library.Multiset"
    "HOL-Library.Char_ord"
    "HOL-Library.List_Lexorder"
    "HOL-Library.Product_Lexorder"
begin

section \<open>The data of the dashboard\<close>

text \<open>
  The program is one script, \<^verbatim>\<open>app.py\<close>: \<^verbatim>\<open>load_data\<close> reads a spreadsheet into a
  pandas frame, \<^verbatim>\<open>compute_summary\<close> filters and aggregates it per category, and the
  script body truncates the summary (\<^verbatim>\<open>nlargest\<close>) and builds the top-products table.

  A spreadsheet cell is blank (pandas' NaN or NaT, here \<open>None\<close>) or holds a number, a
  text or a date-time. Numbers are modelled as reals: the rounding, the infinities and
  the NaN of 64-bit floats are outside the model. A date-time is its count of
  nanoseconds since the epoch.
\<close>

datatype val = Num real | Text string | Stamp int

type_synonym cell = "val option"

text \<open>The exceptions that the modelled code can raise.\<close>

datatype error = KeyError string | ValueError | TypeError

text \<open>
  The sheet as \<^verbatim>\<open>pd.read_excel\<close> returns it: the names of the columns it has, and
  its rows. A field of a row whose column is not in the header is never read.
  The label and product columns hold text or blanks.
\<close>

record raw_row =
  raw_id :: cell
  raw_order_date :: cell
  raw_category :: "string option"
  raw_after_discount :: cell
  raw_cogs :: cell
  raw_sku_id :: "string option"
  raw_sku_name :: "string option"

record raw_frame =
  header :: "string list"
  body :: "raw_row list"

text \<open>
  A row of the frame that \<^verbatim>\<open>compute_summary\<close> and the top-products block read. The
  columns they touch are all present: \<^verbatim>\<open>id\<close> (any cell; only whether it is blank
  matters), \<^verbatim>\<open>order_date\<close> (a date-time column, \<open>None\<close> for NaT), \<^verbatim>\<open>category\<close>,
  \<^verbatim>\<open>sku_id\<close> and \<^verbatim>\<open>sku_name\<close> (text, \<open>None\<close> for NaN) and the numeric columns
  \<^verbatim>\<open>sales_value\<close>, \<^verbatim>\<open>cogs\<close> and \<^verbatim>\<open>net_profit\<close> that \<^verbatim>\<open>load_data\<close> has filled.
\<close>

record txn =
  ident :: cell
  order_date :: "int option"
  category :: "string option"
  sales_value :: real
  cogs :: real
  net_profit :: real
  sku_id :: "string option"
  sku_name :: "string option"

text \<open>The frame that \<^verbatim>\<open>load_data\<close> returns: its column names and its rows.\<close>

record frame =
  columns :: "string list"
  rows :: "txn list"

text \<open>One row of \<^verbatim>\<open>groupby("category").agg(...).reset_index()\<close>.\<close>

record group_agg =
  g_category :: string
  g_sales_value :: real
  g_net_profit :: real
  g_transactions :: nat

text \<open>One row of the summary once the \<^verbatim>\<open>AOV\<close> column is added.\<close>

record category_summary =
  s_category :: string
  s_sales_value :: real
  s_net_profit :: real
  s_transactions :: nat
  s_AOV :: real

text \<open>The \<^verbatim>\<open>totals\<close> dictionary.\<close>

record totals =
  total_sales :: real
  total_profit :: real
  avg_aov :: real
  transactions :: nat

text \<open>One row of the top-products table.\<close>

record product_summary =
  p_sku_id :: string
  p_sku_name :: string
  p_sales_value :: real
  p_transactions :: nat

section \<open>The pandas operations the script calls\<close>

text \<open>
  \<^verbatim>\<open>d["order_date"] >= start_date\<close> and \<^verbatim>\<open><=\<close>: a comparison with NaT is False.
\<close>

definition ge_date :: "int option \<Rightarrow> int \<Rightarrow> bool" where
  "ge_date d b = (case d of None \<Rightarrow> False | Some t \<Rightarrow> b \<le> t)"

definition le_date :: "int option \<Rightarrow> int \<Rightarrow> bool" where
  "le_date d b = (case d of None \<Rightarrow> False | Some t \<Rightarrow> t \<le> b)"

text \<open>\<^verbatim>\<open>Series.isin\<close> on a text column with a list of labels: NaN is in no such list.\<close>

definition isin :: "string option \<Rightarrow> string list \<Rightarrow> bool" where
  "isin c sel = (case c of None \<Rightarrow> False | Some s \<Rightarrow> s \<in> set sel)"

text \<open>\<^verbatim>\<open>count\<close> of the \<^verbatim>\<open>id\<close> column: the number of cells that are not blank.\<close>

definition count_ids :: "txn list \<Rightarrow> nat" where
  "count_ids g = length (filter (\<lambda>r. ident r \<noteq> None) g)"

text \<open>
  \<^verbatim>\<open>groupby("category")\<close> with its defaults (\<^verbatim>\<open>sort=True\<close>, \<^verbatim>\<open>dropna=True\<close>): the
  group keys are the distinct labels in ascending order, rows without a label belong
  to no group.
\<close>

definition group_keys :: "txn list \<Rightarrow> string list" where
  "group_keys d = sort (remdups (List.map_filter category d))"

definition agg_group :: "txn list \<Rightarrow> string \<Rightarrow> group_agg" where
  "agg_group d k =
     (let g = filter (\<lambda>r. category r = Some k) d
      in \<lparr>g_category = k,
          g_sales_value = sum_list (map sales_value g),
          g_net_profit = sum_list (map net_profit g),
          g_transactions = count_ids g\<rparr>)"

definition groupby_category :: "txn list \<Rightarrow> group_agg list" where
  "groupby_category d = map (agg_group d) (group_keys d)"

text \<open>
  \<^verbatim>\<open>groupby(["sku_id", "sku_name"])\<close>: the keys are the distinct pairs in ascending
  order; a row with a blank in either column belongs to no group.
\<close>

definition sku_key :: "txn \<Rightarrow> (string \<times> string) option" where
  "sku_key r =
     (case sku_id r of None \<Rightarrow> None
      | Some i \<Rightarrow> (case sku_name r of None \<Rightarrow> None | Some n \<Rightarrow> Some (i, n)))"

definition sku_keys :: "txn list \<Rightarrow> (string \<times> string) list" where
  "sku_keys d = sort (remdups (List.map_filter sku_key d))"

definition agg_sku :: "txn list \<Rightarrow> string \<times> string \<Rightarrow> product_summary" where
  "agg_sku d k =
     (let g = filter (\<lambda>r. sku_key r = Some k) d
      in \<lparr>p_sku_id = fst k,
          p_sku_name = snd k,
          p_sales_value = sum_list (map sales_value g),
          p_transactions = count_ids g\<rparr>)"

definition groupby_sku :: "txn list \<Rightarrow> product_summary list" where
  "groupby_sku d = map (agg_sku d) (sku_keys d)"

text \<open>
  \<^verbatim>\<open>sort_values(col, ascending=False)\<close> with the default \<^verbatim>\<open>kind="quicksort"\<close>. pandas
  (\<^verbatim>\<open>nargsort\<close>) reverses the key array, calls numpy's \<^verbatim>\<open>argsort\<close> on it, picks the
  reversed positions by the result and reverses again. The quicksort kind is documented
  as not stable: the order it leaves among equal keys belongs to the numpy build, not
  to the script. The model takes the \<^verbatim>\<open>argsort\<close> as a parameter \<open>qs\<close>.
\<close>

definition nargsort_desc :: "(real list \<Rightarrow> nat list) \<Rightarrow> real list \<Rightarrow> nat list" where
  "nargsort_desc qs ks =
     (let non_nans = rev ks;
          non_nan_idx = rev [0..<length ks];
          indexer = map (\<lambda>i. non_nan_idx ! i) (qs non_nans)
      in rev indexer)"

definition sort_values_desc :: "(real list \<Rightarrow> nat list) \<Rightarrow> ('a \<Rightarrow> real) \<Rightarrow> 'a list \<Rightarrow> 'a list" where
  "sort_values_desc qs key rs = map (\<lambda>i. rs ! i) (nargsort_desc qs (map key rs))"

text \<open>What an \<^verbatim>\<open>argsort\<close> returns: the positions of its input, ordered by ascending key.\<close>

definition is_argsort :: "(real list \<Rightarrow> nat list) \<Rightarrow> bool" where
  "is_argsort qs \<longleftrightarrow>
     (\<forall>ks. mset (qs ks) = mset [0..<length ks] \<and> sorted (map (\<lambda>i. ks ! i) (qs ks)))"

text \<open>
  \<^verbatim>\<open>np.where(transactions > 0, sales_value / transactions, 0)\<close>: numpy evaluates the
  quotient everywhere (a zero divisor gives inf or NaN with a warning, no exception) and
  \<^verbatim>\<open>where\<close> keeps it only where the count is positive.
\<close>

definition aov :: "real \<Rightarrow> nat \<Rightarrow> real" where
  "aov s t = (if t > 0 then s / real t else 0)"

definition add_aov :: "group_agg \<Rightarrow> category_summary" where
  "add_aov g =
     \<lparr>s_category = g_category g,
      s_sales_value = g_sales_value g,
      s_net_profit = g_net_profit g,
      s_transactions = g_transactions g,
      s_AOV = aov (g_sales_value g) (g_transactions g)\<rparr>"

text \<open>\<^verbatim>\<open>Series.mean\<close> of a non-empty numeric column.\<close>

definition mean :: "real list \<Rightarrow> real" where
  "mean xs = sum_list xs / real (length xs)"

text \<open>\<^verbatim>\<open>Series.fillna(x)\<close>, cell by cell: only a blank is replaced.\<close>

definition fillna :: "real \<Rightarrow> cell \<Rightarrow> val" where
  "fillna x c = (case c of None \<Rightarrow> Num x | Some v \<Rightarrow> v)"

text \<open>A column operation that raises at the first cell that fails.\<close>

fun sequence :: "(error + 'a) list \<Rightarrow> error + 'a list" where
  "sequence [] = Inr []"
| "sequence (Inl e # xs) = Inl e"
| "sequence (Inr x # xs) = (case sequence xs of Inl e \<Rightarrow> Inl e | Inr ys \<Rightarrow> Inr (x # ys))"

text \<open>
  \<^verbatim>\<open>pd.to_numeric\<close> with its default \<^verbatim>\<open>errors="raise"\<close>: a number stays, a text is
  read as a number or raises \<^verbatim>\<open>ValueError\<close>, a date-time raises \<^verbatim>\<open>TypeError\<close>. Which
  texts pandas reads as numbers, and as which, is the parameter \<open>rd\<close>.
\<close>

definition to_numeric1 :: "(string \<Rightarrow> real option) \<Rightarrow> val \<Rightarrow> error + real" where
  "to_numeric1 rd v =
     (case v of
        Num x \<Rightarrow> Inr x
      | Text s \<Rightarrow> (case rd s of Some x \<Rightarrow> Inr x | None \<Rightarrow> Inl ValueError)
      | Stamp t \<Rightarrow> Inl TypeError)"

definition to_numeric :: "(string \<Rightarrow> real option) \<Rightarrow> val list \<Rightarrow> error + real list" where
  "to_numeric rd vs = sequence (map (to_numeric1 rd) vs)"

text \<open>
  The left operand of \<^verbatim>\<open>df["sales_value"] - df["cogs"]\<close>: the subtraction of a float
  from a text or from a date-time raises \<^verbatim>\<open>TypeError\<close>.
\<close>

definition minuend1 :: "val \<Rightarrow> error + real" where
  "minuend1 v = (case v of Num x \<Rightarrow> Inr x | Text s \<Rightarrow> Inl TypeError | Stamp t \<Rightarrow> Inl TypeError)"

definition minuend :: "val list \<Rightarrow> error + real list" where
  "minuend vs = sequence (map minuend1 vs)"

text \<open>
  \<^verbatim>\<open>DataFrame.nlargest(n, col)\<close> with its default \<^verbatim>\<open>keep="first"\<close>. pandas has two
  paths. When \<open>n\<close> is at least the number of rows it returns
  \<^verbatim>\<open>sort_values(ascending=False).head(n)\<close>, with the default quicksort, so the argsort
  \<open>qs\<close> decides the order among equal values. Otherwise it negates the column, keeps the
  positions up to the \<open>n\<close>-th smallest value, sorts them with the stable merge sort
  and takes the first \<open>n\<close>: the first \<open>n\<close> rows of the stable descending order.
\<close>

definition nlargest ::
  "(real list \<Rightarrow> nat list) \<Rightarrow> nat \<Rightarrow> ('a \<Rightarrow> real) \<Rightarrow> 'a list \<Rightarrow> 'a list" where
  "nlargest qs n key rs =
     (if n \<le> 0 then []
      else if n \<ge> length rs then take n (sort_values_desc qs key rs)
      else take n (sort_key (\<lambda>r. - key r) rs))"

section \<open>load_data\<close>

text \<open>
  \<^verbatim>\<open>pd.to_datetime(col, errors="coerce")\<close> on one cell is the parameter \<open>dt\<close>: the
  time stamp that pandas reads from the cell, or \<open>None\<close> (NaT).

  The steps of \<^verbatim>\<open>load_data\<close> in their order: the date column is converted when the
  sheet has one; the category column is created, \<^verbatim>\<open>"Unknown"\<close> in every row, when the
  sheet has none (an existing column is left as it is); \<^verbatim>\<open>df["after_discount"]\<close> and
  \<^verbatim>\<open>df["cogs"]\<close> raise \<^verbatim>\<open>KeyError\<close> when the column is absent; blanks of both become
  0; \<^verbatim>\<open>to_numeric\<close> runs on the cost column; the profit is the difference.
  \<open>add_column\<close> is the assignment \<^verbatim>\<open>df[c] = ...\<close> on the column names, \<open>build_rows\<close>
  puts the columns of the result side by side.
\<close>

definition add_column :: "string \<Rightarrow> string list \<Rightarrow> string list" where
  "add_column c cols = (if c \<in> set cols then cols else cols @ [c])"

definition build_rows ::
  "raw_row list \<Rightarrow> int option list \<Rightarrow> string option list \<Rightarrow> real list \<Rightarrow> real list
     \<Rightarrow> txn list" where
  "build_rows b dates cats sv cg =
     map (\<lambda>(r, d, c, s, k).
            \<lparr>ident = raw_id r, order_date = d, category = c,
             sales_value = s, cogs = k, net_profit = s - k,
             sku_id = raw_sku_id r, sku_name = raw_sku_name r\<rparr>)
       (zip b (zip dates (zip cats (zip sv cg))))"

definition load_data ::
  "(cell \<Rightarrow> int option) \<Rightarrow> (string \<Rightarrow> real option) \<Rightarrow> raw_frame \<Rightarrow> error + frame" where
  "load_data dt rd df =
     (let dates = (if ''order_date'' \<in> set (header df)
                   then map (\<lambda>r. dt (raw_order_date r)) (body df)
                   else map (\<lambda>r. None) (body df));
          cats = (if ''category'' \<notin> set (header df)
                  then map (\<lambda>r. Some ''Unknown'') (body df)
                  else map raw_category (body df));
          cols = (if ''category'' \<notin> set (header df)
                  then add_column ''category'' (header df) else header df)
      in if ''after_discount'' \<notin> set cols then Inl (KeyError ''after_discount'')
         else
           (let sales = map (\<lambda>r. fillna 0 (raw_after_discount r)) (body df);
                cols = add_column ''sales_value'' cols
            in if ''cogs'' \<notin> set cols then Inl (KeyError ''cogs'')
               else
                 (case to_numeric rd (map (\<lambda>r. fillna 0 (raw_cogs r)) (body df)) of
                    Inl e \<Rightarrow> Inl e
                  | Inr cg \<Rightarrow>
                      (case minuend sales of
                         Inl e \<Rightarrow> Inl e
                       | Inr sv \<Rightarrow>
                           Inr \<lparr>columns = add_column ''net_profit'' cols,
                                rows = build_rows (body df) dates cats sv cg\<rparr>))))"

section \<open>compute_summary\<close>

text \<open>
  The three filters at the head of \<^verbatim>\<open>compute_summary\<close>. A bound is a time stamp or
  \<^verbatim>\<open>None\<close>; a time stamp is truthy, so \<^verbatim>\<open>if start_date:\<close> tests for \<^verbatim>\<open>None\<close>. The
  category selection is \<^verbatim>\<open>None\<close> or a list of labels, used when it is not empty.
\<close>

definition select_rows ::
  "txn list \<Rightarrow> int option \<Rightarrow> int option \<Rightarrow> string list option \<Rightarrow> txn list" where
  "select_rows df start_date end_date selected_categories =
     (let d = df;
          d = (case start_date of None \<Rightarrow> d
               | Some s \<Rightarrow> filter (\<lambda>r. ge_date (order_date r) s) d);
          d = (case end_date of None \<Rightarrow> d
               | Some e \<Rightarrow> filter (\<lambda>r. le_date (order_date r) e) d);
          d = (case selected_categories of None \<Rightarrow> d
               | Some sel \<Rightarrow> if length sel > 0 then filter (\<lambda>r. isin (category r) sel) d else d)
      in d)"

definition compute_totals :: "category_summary list \<Rightarrow> totals" where
  "compute_totals summary =
     \<lparr>total_sales = sum_list (map s_sales_value summary),
      total_profit = sum_list (map s_net_profit summary),
      avg_aov = (if length summary > 0 then mean (map s_AOV summary) else 0),
      transactions = sum_list (map s_transactions summary)\<rparr>"

definition compute_summary ::
  "(real list \<Rightarrow> nat list) \<Rightarrow> txn list \<Rightarrow> int option \<Rightarrow> int option \<Rightarrow> string list option
     \<Rightarrow> category_summary list \<times> totals" where
  "compute_summary qs df start_date end_date selected_categories =
     (let d = select_rows df start_date end_date selected_categories;
          summary = sort_values_desc qs g_sales_value (groupby_category d);
          summary = map add_aov summary;
          totals = compute_totals summary
      in (summary, totals))"

section \<open>The script body\<close>

text \<open>\<^verbatim>\<open>summary = summary.nlargest(top_n, "sales_value")\<close>.\<close>

definition top_n_summary ::
  "(real list \<Rightarrow> nat list) \<Rightarrow> nat \<Rightarrow> category_summary list \<Rightarrow> category_summary list" where
  "top_n_summary qs top_n summary = nlargest qs top_n s_sales_value summary"

text \<open>
  The top-products block: the category selection is applied when it is not empty
  (\<^verbatim>\<open>if selected_categories:\<close>), then \<^verbatim>\<open>groupby\<close>, \<^verbatim>\<open>sort_values\<close> and \<^verbatim>\<open>head(10)\<close>.
  The dates of the sidebar are not used.
\<close>

definition restrict_categories :: "txn list \<Rightarrow> string list option \<Rightarrow> txn list" where
  "restrict_categories d selected_categories =
     (case selected_categories of None \<Rightarrow> d
      | Some sel \<Rightarrow> if length sel > 0 then filter (\<lambda>r. isin (category r) sel) d else d)"

definition top_products ::
  "(real list \<Rightarrow> nat list) \<Rightarrow> txn list \<Rightarrow> string list option \<Rightarrow> product_summary list" where
  "top_products qs df selected_categories =
     (let prod = df;
          prod = restrict_categories prod selected_categories;
          prod = sort_values_desc qs p_sales_value (groupby_sku prod)
      in take 10 prod)"

section \<open>numpy's quicksort\<close>

text \<open>
  The examples need one \<^verbatim>\<open>argsort\<close> to run. \<open>stable_argsort\<close> is the stable one (what
  \<^verbatim>\<open>kind="stable"\<close> gives). \<open>numpy_argsort\<close> follows the portable C routine behind the
  default \<^verbatim>\<open>kind="quicksort"\<close> for floats (\<^verbatim>\<open>aquicksort\<close>: an introsort on the array of
  positions \<open>a\<close>, keyed by the values \<open>v\<close>): ranges of more than 17 positions are split
  around the median of three, shorter ranges are sorted by insertion.
\<close>

definition stable_argsort :: "real list \<Rightarrow> nat list" where
  "stable_argsort ks = sort_key (\<lambda>i. ks ! i) [0..<length ks]"

text \<open>\<^verbatim>\<open>INTP_SWAP(a[i], a[j])\<close>.\<close>

definition swap :: "nat list \<Rightarrow> nat \<Rightarrow> nat \<Rightarrow> nat list" where
  "swap a i j = a[i := a ! j, j := a ! i]"

text \<open>
  The two inner scans of the partition, \<^verbatim>\<open>do ++pi; while (v[*pi] < vp)\<close> and
  \<^verbatim>\<open>do --pj; while (vp < v[*pj])\<close>, from the position after the step. In C the median
  of three leaves a sentinel at either end; the model also stops at the ends of the
  array.
\<close>

function scan_up :: "real list \<Rightarrow> nat list \<Rightarrow> real \<Rightarrow> nat \<Rightarrow> nat" where
  "scan_up v a vp i =
     (if i < length a \<and> v ! (a ! i) < vp then scan_up v a vp (i + 1) else i)"
  by pat_completeness auto
termination
  by (relation "measure (\<lambda>(v, a, vp, i). length a - i)") auto

declare scan_up.simps [simp del]

function scan_down :: "real list \<Rightarrow> nat list \<Rightarrow> real \<Rightarrow> nat \<Rightarrow> nat" where
  "scan_down v a vp j =
     (if 0 < j \<and> vp < v ! (a ! j) then scan_down v a vp (j - 1) else j)"
  by pat_completeness auto
termination
  by (relation "measure (\<lambda>(v, a, vp, j). j)") auto

declare scan_down.simps [simp del]

text \<open>The \<^verbatim>\<open>for (;;)\<close> loop of the partition: scan, stop when the scans meet, else swap.\<close>

function hoare :: "real list \<Rightarrow> nat list \<Rightarrow> real \<Rightarrow> nat \<Rightarrow> nat \<Rightarrow> nat list \<times> nat" where
  "hoare v a vp i j =
     (let i' = scan_up v a vp (i + 1);
          j' = scan_down v a vp (j - 1)
      in if i' \<ge> j' then (a, i') else hoare v (swap a i' j') vp i' j')"
  by pat_completeness auto
termination
proof (relation "measure (\<lambda>(v, a, vp, i, j). j - i)", goal_cases)
  case 1 show ?case by simp
next
  case (2 v a vp i j x xa)
  have up: "k \<le> scan_up v a vp k" for k
  proof (induction v a vp k rule: scan_up.induct)
    case (1 v a vp i)
    show ?case
    proof (cases "i < length a \<and> v ! (a ! i) < vp")
      case True
      then have "i + 1 \<le> scan_up v a vp (i + 1)" using 1 by blast
      moreover have "scan_up v a vp i = scan_up v a vp (i + 1)"
        using True by (subst scan_up.simps) simp
      ultimately show ?thesis by simp
    next
      case False
      then have "scan_up v a vp i = i" by (subst scan_up.simps) auto
      then show ?thesis by simp
    qed
  qed
  have down: "scan_down v a vp k \<le> k" for k
  proof (induction v a vp k rule: scan_down.induct)
    case (1 v a vp j)
    show ?case
    proof (cases "0 < j \<and> vp < v ! (a ! j)")
      case True
      then have "scan_down v a vp (j - 1) \<le> j - 1" using 1 by blast
      moreover have "scan_down v a vp j = scan_down v a vp (j - 1)"
        using True by (subst scan_down.simps) simp
      ultimately show ?thesis by simp
    next
      case False
      then have "scan_down v a vp j = j" by (subst scan_down.simps) auto
      then show ?thesis by simp
    qed
  qed
  have "i + 1 \<le> x" using 2 up by simp
  moreover have "xa \<le> j" using 2 down [of "j - 1"] by simp
  ultimately show ?case using 2 by simp
qed

declare hoare.simps [simp del]

text \<open>
  One partition step on the range \<open>pl..pr\<close>: median of three, the pivot parked at
  \<open>pr - 1\<close>, the scans, the pivot put back. The result is the array and the pivot's
  position.
\<close>

definition partition_m3 :: "real list \<Rightarrow> nat list \<Rightarrow> nat \<Rightarrow> nat \<Rightarrow> nat list \<times> nat" where
  "partition_m3 v a pl pr =
     (let pm = pl + (pr - pl) div 2;
          a = (if v ! (a ! pm) < v ! (a ! pl) then swap a pm pl else a);
          a = (if v ! (a ! pr) < v ! (a ! pm) then swap a pr pm else a);
          a = (if v ! (a ! pm) < v ! (a ! pl) then swap a pm pl else a);
          vp = v ! (a ! pm);
          a = swap a pm (pr - 1);
          (a, i) = hoare v a vp pl (pr - 1)
      in (swap a i (pr - 1), i))"

text \<open>The insertion sort of a short range, \<open>pl..pr\<close>.\<close>

function ins_shift :: "real list \<Rightarrow> nat list \<Rightarrow> nat \<Rightarrow> real \<Rightarrow> nat \<Rightarrow> nat list \<times> nat" where
  "ins_shift v a pl vp j =
     (if j > pl \<and> vp < v ! (a ! (j - 1)) then ins_shift v (a[j := a ! (j - 1)]) pl vp (j - 1)
      else (a, j))"
  by pat_completeness auto
termination
  by (relation "measure (\<lambda>(v, a, pl, vp, j). j)") auto

declare ins_shift.simps [simp del]

function insertion :: "real list \<Rightarrow> nat list \<Rightarrow> nat \<Rightarrow> nat \<Rightarrow> nat \<Rightarrow> nat list" where
  "insertion v a pl pr i =
     (if i \<le> pr \<and> i < length a then
        (let vi = a ! i;
             (a', j) = ins_shift v a pl (v ! vi) i
         in insertion v (a'[j := vi]) pl pr (i + 1))
      else a)"
  by pat_completeness auto
termination
  by (relation "measure (\<lambda>(v, a, pl, pr, i). pr + 1 - i)") auto

declare insertion.simps [simp del]

text \<open>\<^verbatim>\<open>npy_get_msb\<close>: the position of the highest set bit.\<close>

fun npy_get_msb :: "nat \<Rightarrow> nat" where
  "npy_get_msb n = (if n div 2 = 0 then 0 else Suc (npy_get_msb (n div 2)))"

declare npy_get_msb.simps [simp del]

text \<open>
  The main loop with its stack of pending ranges (\<open>st\<close>, each with the depth budget it
  was pushed with). The larger part of a split is pushed, the smaller is continued. The
  loop runs on fuel; \<open>None\<close> is also the answer where the C code falls back to heapsort
  (a popped range whose depth budget is used up), which is not modelled.
\<close>

fun aquicksort_loop ::
  "nat \<Rightarrow> real list \<Rightarrow> nat list \<Rightarrow> nat \<Rightarrow> nat \<Rightarrow> int \<Rightarrow> (nat \<times> nat \<times> int) list \<Rightarrow> nat list option" where
  "aquicksort_loop 0 v a pl pr cdepth st = None"
| "aquicksort_loop (Suc fuel) v a pl pr cdepth st =
     (if pr - pl > 16 then
        (let (a', i) = partition_m3 v a pl pr;
             cd = cdepth - 1
         in if i - pl < pr - i
            then aquicksort_loop fuel v a' pl (i - 1) cd ((i + 1, pr, cd) # st)
            else aquicksort_loop fuel v a' (i + 1) pr cd ((pl, i - 1, cd) # st))
      else
        (let a' = insertion v a pl pr (pl + 1)
         in case st of
              [] \<Rightarrow> Some a'
            | (pl', pr', cd') # st' \<Rightarrow>
                if cd' < 0 then None else aquicksort_loop fuel v a' pl' pr' cd' st'))"

definition aquicksort :: "real list \<Rightarrow> nat list option" where
  "aquicksort v =
     (let num = length v
      in aquicksort_loop (2 * num + 2) v [0..<num] 0 (num - 1) (2 * int (npy_get_msb num)) [])"

definition numpy_argsort :: "real list \<Rightarrow> nat list" where
  "numpy_argsort v = (case aquicksort v of Some a \<Rightarrow> a | None \<Rightarrow> [])"

section \<open>Concrete data for the examples\<close>

definition mk_txn :: "cell \<Rightarrow> int option \<Rightarrow> string option \<Rightarrow> real \<Rightarrow> real \<Rightarrow> txn" where
  "mk_txn i d c s k =
     \<lparr>ident = i, order_date = d, category = c, sales_value = s, cogs = k,
      net_profit = s - k, sku_id = None, sku_name = None\<rparr>"

text \<open>The scenario of the specification, with days counted from 2023-01-01.\<close>

definition scenario :: "txn list" where
  "scenario =
     [mk_txn (Some (Num 1)) (Some 4) (Some ''A'') 100 40,
      mk_txn (Some (Num 2)) (Some 40) (Some ''A'') 50 10,
      mk_txn (Some (Num 3)) (Some 19) (Some ''B'') 200 150]"

text \<open>Rows with a blank \<^verbatim>\<open>id\<close>.\<close>

definition blank_ids :: "txn list" where
  "blank_ids =
     [mk_txn None (Some 4) (Some ''C'') 30 10,
      mk_txn (Some (Num 2)) (Some 5) (Some ''D'') 20 5,
      mk_txn None (Some 6) (Some ''D'') 15 5]"


text \<open>Eighteen categories, \<open>a\<close> to \<open>r\<close>, one row each, all with the same sales value.\<close>

definition ties18 :: "txn list" where
  "ties18 = map (\<lambda>c. mk_txn (Some (Num 1)) (Some 0) (Some [c]) 10 4) ''abcdefghijklmnopqr''"

definition zero_totals :: totals where
  "zero_totals = \<lparr>total_sales = 0, total_profit = 0, avg_aov = 0, transactions = 0\<rparr>"

text \<open>
  Twelve products, \<open>a\<close> to \<open>l\<close>, of categories \<open>X\<close> and \<open>Y\<close> in turn; product \<open>a\<close> has
  two rows, one of them without a date and one with a blank \<^verbatim>\<open>id\<close>.
\<close>

definition mk_sale :: "cell \<Rightarrow> int option \<Rightarrow> string \<Rightarrow> string \<Rightarrow> real \<Rightarrow> txn" where
  "mk_sale i d c p s =
     \<lparr>ident = i, order_date = d, category = Some c, sales_value = s, cogs = 0,
      net_profit = s, sku_id = Some p, sku_name = Some (''sku-'' @ p)\<rparr>"

definition products12 :: "txn list" where
  "products12 =
     mk_sale None None ''X'' ''a'' (1 / 2) #
     map (\<lambda>k. mk_sale (Some (Num 1)) (Some (int k)) (if even k then ''X'' else ''Y'')
                  [''abcdefghijkl'' ! k] (real (k + 1)))
       [0..<12]"

text \<open>
  Stand-ins for the two pandas readers on the cells of the examples: a text of decimal
  digits is the number it spells and no other text is a number; a date-time cell is
  its time stamp and no other cell is a date.
\<close>

fun digits_value :: "nat \<Rightarrow> string \<Rightarrow> nat option" where
  "digits_value acc [] = Some acc"
| "digits_value acc (c # cs) =
     (if c \<in> set ''0123456789'' then digits_value (10 * acc + (of_char c - 48)) cs else None)"

definition read_digits :: "string \<Rightarrow> real option" where
  "read_digits s = (if s = [] then None else map_option real (digits_value 0 s))"

definition read_stamp :: "cell \<Rightarrow> int option" where
  "read_stamp c = (case c of Some (Stamp t) \<Rightarrow> Some t | _ \<Rightarrow> None)"

definition mk_raw :: "cell \<Rightarrow> string option \<Rightarrow> cell \<Rightarrow> cell \<Rightarrow> raw_row" where
  "mk_raw d c s k =
     \<lparr>raw_id = Some (Num 1), raw_order_date = d, raw_category = c, raw_after_discount = s,
      raw_cogs = k, raw_sku_id = Some ''p'', raw_sku_name = Some ''sku-p''\<rparr>"

text \<open>A sheet without a category column, with blanks and a cost written as text.\<close>

definition dirty_sheet :: raw_frame where
  "dirty_sheet =
     \<lparr>header = [''id'', ''order_date'', ''after_discount'', ''cogs'', ''sku_id'', ''sku_name''],
      body = [mk_raw (Some (Stamp 5)) None (Some (Num 100)) None,
              mk_raw (Some (Text ''soon'')) None None (Some (Num 7)),
              mk_raw None None (Some (Num 50)) (Some (Text ''12''))]\<rparr>"

text \<open>A sheet with every column, where one cost is a text that is no number.\<close>

definition bad_cogs_sheet :: raw_frame where
  "bad_cogs_sheet =
     \<lparr>header = [''id'', ''order_date'', ''category'', ''after_discount'', ''cogs'', ''sku_id'',
                ''sku_name''],
      body = [mk_raw (Some (Stamp 5)) (Some ''A'') (Some (Num 100)) (Some (Num 40)),
              mk_raw (Some (Stamp 6)) (Some ''A'') (Some (Num 50)) (Some (Text ''abc''))]\<rparr>"

section \<open>Sorting by a descending key\<close>

lemma is_argsort_stable: "is_argsort stable_argsort"
  unfolding is_argsort_def stable_argsort_def by simp

lemma mset_nargsort_desc:
  assumes "is_argsort qs"
  shows "mset (nargsort_desc qs ks) = mset [0..<length ks]"
proof -
  let ?n = "length ks"
  have p: "mset (qs (rev ks)) = mset [0..<?n]"
    using assms unfolding is_argsort_def by (metis length_rev)
  have "mset (map (\<lambda>i. rev [0..<?n] ! i) (qs (rev ks))) = mset (map (\<lambda>i. rev [0..<?n] ! i) [0..<?n])"
    using p by (metis mset_map)
  also have "map (\<lambda>i. rev [0..<?n] ! i) [0..<?n] = rev [0..<?n]"
    using map_nth [of "rev [0..<?n]"] by simp
  finally show ?thesis
    by (simp add: nargsort_desc_def)
qed

lemma mset_sort_values_desc:
  assumes "is_argsort qs"
  shows "mset (sort_values_desc qs key rs) = mset rs"
proof -
  have "mset (nargsort_desc qs (map key rs)) = mset [0..<length rs]"
    using mset_nargsort_desc [OF assms, of "map key rs"] by simp
  then have "mset (map (\<lambda>i. rs ! i) (nargsort_desc qs (map key rs))) = mset (map (\<lambda>i. rs ! i) [0..<length rs])"
    by (metis mset_map)
  then show ?thesis
    by (simp add: sort_values_desc_def map_nth)
qed

lemma set_sort_values_desc:
  "is_argsort qs \<Longrightarrow> set (sort_values_desc qs key rs) = set rs"
  by (metis mset_sort_values_desc set_mset_mset)

lemma length_sort_values_desc:
  "is_argsort qs \<Longrightarrow> length (sort_values_desc qs key rs) = length rs"
  by (metis mset_sort_values_desc size_mset)

lemma sorted_sort_values_desc:
  assumes "is_argsort qs"
  shows "sorted_wrt (\<lambda>a b. key a \<ge> key b) (sort_values_desc qs key rs)"
proof -
  let ?ks = "map key rs"
  let ?n = "length ?ks"
  let ?p = "qs (rev ?ks)"
  have pm: "mset ?p = mset [0..<?n]"
    using assms unfolding is_argsort_def by (metis length_rev)
  then have pset: "set ?p = {0..<?n}"
    by (metis mset_eq_setD set_upt)
  have srt: "sorted (map (\<lambda>i. rev ?ks ! i) ?p)"
    using assms unfolding is_argsort_def by blast
  have idx: "map (\<lambda>i. rev [0..<?n] ! i) ?p = map (\<lambda>i. ?n - 1 - i) ?p"
    using pset by (auto simp: rev_nth)
  have keys: "map key (sort_values_desc qs key rs) = rev (map (\<lambda>i. rev ?ks ! i) ?p)"
  proof -
    have "map key (sort_values_desc qs key rs) = rev (map (\<lambda>i. key (rs ! (?n - 1 - i))) ?p)"
      using idx by (simp add: sort_values_desc_def nargsort_desc_def rev_map comp_def)
    also have "map (\<lambda>i. key (rs ! (?n - 1 - i))) ?p = map (\<lambda>i. rev ?ks ! i) ?p"
      using pset by (auto simp: rev_nth Suc_diff_Suc)
    finally show ?thesis .
  qed
  have "sorted_wrt (\<ge>) (map key (sort_values_desc qs key rs))"
    unfolding keys using srt by (simp add: sorted_wrt_rev)
  then show ?thesis
    by (simp add: sorted_wrt_map)
qed

lemma nargsort_desc_Nil: "is_argsort qs \<Longrightarrow> nargsort_desc qs [] = []"
  using mset_nargsort_desc [of qs "[]"] by simp

section \<open>The summary as a function of the rows\<close>





lemma sorted_summary:
  assumes "is_argsort qs"
  shows "sorted_wrt (\<lambda>a b. s_sales_value a \<ge> s_sales_value b) (fst (compute_summary qs df sd ed sel))"
proof -
  have "sorted_wrt (\<lambda>a b. g_sales_value a \<ge> g_sales_value b)
          (sort_values_desc qs g_sales_value (groupby_category (select_rows df sd ed sel)))"
    using assms by (rule sorted_sort_values_desc)
  then show ?thesis
    by (simp add: compute_summary_def Let_def sorted_wrt_map add_aov_def)
qed

lemma insort_key_tiebreak:
  fixes f :: "'a::linorder \<Rightarrow> 'b::linorder"
  assumes "sorted_wrt (\<lambda>a b. f a < f b \<or> (f a = f b \<and> a < b)) ys" and "\<forall>y \<in> set ys. x < y"
  shows "sorted_wrt (\<lambda>a b. f a < f b \<or> (f a = f b \<and> a < b)) (insort_key f x ys)"
  using assms
proof (induction ys)
  case Nil
  then show ?case by simp
next
  case (Cons y ys)
  show ?case
  proof (cases "f x \<le> f y")
    case True
    have "f x < f z \<or> (f x = f z \<and> x < z)" if "z \<in> set (y # ys)" for z
    proof -
      have "f y \<le> f z" using that Cons.prems(1) by auto
      moreover have "x < z" using that Cons.prems(2) by auto
      ultimately show ?thesis using True by auto
    qed
    then show ?thesis using True Cons.prems(1) by auto
  next
    case False
    have "sorted_wrt (\<lambda>a b. f a < f b \<or> (f a = f b \<and> a < b)) (insort_key f x ys)"
      using Cons by auto
    moreover have "f y < f z \<or> (f y = f z \<and> y < z)" if "z \<in> set (insort_key f x ys)" for z
      using that False Cons.prems(1) by (auto simp: set_insort_key)
    ultimately show ?thesis using False by auto
  qed
qed

lemma sort_key_tiebreak:
  fixes f :: "'a::linorder \<Rightarrow> 'b::linorder"
  assumes "sorted_wrt (<) xs"
  shows "sorted_wrt (\<lambda>a b. f a < f b \<or> (f a = f b \<and> a < b)) (sort_key f xs)"
  using assms
proof (induction xs)
  case Nil
  then show ?case by simp
next
  case (Cons x xs)
  have "sorted_wrt (\<lambda>a b. f a < f b \<or> (f a = f b \<and> a < b)) (sort_key f xs)"
    using Cons by simp
  moreover have "\<forall>y \<in> set (sort_key f xs). x < y"
    using Cons.prems by simp
  ultimately show ?case
    by (simp add: insort_key_tiebreak)
qed

lemma nargsort_desc_stable:
  "sorted_wrt (\<lambda>u w. ks ! u > ks ! w \<or> (ks ! u = ks ! w \<and> u < w)) (nargsort_desc stable_argsort ks)"
proof -
  let ?n = "length ks"
  let ?f = "\<lambda>i. rev ks ! i"
  let ?p = "sort_key ?f [0..<?n]"
  let ?g = "\<lambda>i. ?n - 1 - i"
  have pset: "set ?p = {0..<?n}" by simp
  have R: "sorted_wrt (\<lambda>a b. ?f a < ?f b \<or> (?f a = ?f b \<and> a < b)) ?p"
    by (rule sort_key_tiebreak) simp
  have idx: "map (\<lambda>i. rev [0..<?n] ! i) ?p = map ?g ?p"
    using pset by (auto simp: rev_nth)
  have "sorted_wrt (\<lambda>i j. ks ! ?g j > ks ! ?g i \<or> (ks ! ?g j = ks ! ?g i \<and> ?g j < ?g i)) ?p"
  proof (rule sorted_wrt_mono_rel [OF _ R])
    fix i j assume "i \<in> set ?p" "j \<in> set ?p"
      and r: "?f i < ?f j \<or> (?f i = ?f j \<and> i < j)"
    then have "i < ?n" "j < ?n" by auto
    then show "ks ! ?g j > ks ! ?g i \<or> (ks ! ?g j = ks ! ?g i \<and> ?g j < ?g i)"
      using r by (auto simp: rev_nth Suc_diff_Suc)
  qed
  then have "sorted_wrt (\<lambda>u w. ks ! u > ks ! w \<or> (ks ! u = ks ! w \<and> u < w)) (rev (map ?g ?p))"
    by (simp add: sorted_wrt_rev sorted_wrt_map)
  then show ?thesis
    by (simp add: nargsort_desc_def stable_argsort_def idx)
qed



section \<open>The examples, evaluated\<close>

lemma scenario_summary:
  "compute_summary stable_argsort scenario None None None =
     ([\<lparr>s_category = ''B'', s_sales_value = 200, s_net_profit = 50, s_transactions = 1, s_AOV = 200\<rparr>,
       \<lparr>s_category = ''A'', s_sales_value = 150, s_net_profit = 100, s_transactions = 2, s_AOV = 75\<rparr>],
      \<lparr>total_sales = 350, total_profit = 150, avg_aov = 275 / 2, transactions = 3\<rparr>)"
  by code_simp

lemma blank_ids_summary:
  "compute_summary stable_argsort blank_ids None None None =
     ([\<lparr>s_category = ''D'', s_sales_value = 35, s_net_profit = 25, s_transactions = 1, s_AOV = 35\<rparr>,
       \<lparr>s_category = ''C'', s_sales_value = 30, s_net_profit = 20, s_transactions = 0, s_AOV = 0\<rparr>],
      \<lparr>total_sales = 65, total_profit = 45, avg_aov = 35 / 2, transactions = 1\<rparr>)"
  by code_simp

section \<open>Properties of compute_summary\<close>

text \<open>
  C1. The totals are the column sums of the summary that \<^verbatim>\<open>compute_summary\<close> returns
  (the whole summary: the truncation to the top N happens later, in the script body):
  \<open>total_sales\<close> is the sum of the rows' \<open>sales_value\<close>, \<open>total_profit\<close> the sum of their
  \<open>net_profit\<close>, \<open>transactions\<close> the sum of their transaction counts.
\<close>

theorem totals_sum_summary_columns:
  "total_sales (snd (compute_summary qs df sd ed sel))
     = sum_list (map s_sales_value (fst (compute_summary qs df sd ed sel))) \<and>
   total_profit (snd (compute_summary qs df sd ed sel))
     = sum_list (map s_net_profit (fst (compute_summary qs df sd ed sel))) \<and>
   transactions (snd (compute_summary qs df sd ed sel))
     = sum_list (map s_transactions (fst (compute_summary qs df sd ed sel)))"
  by (simp add: compute_summary_def compute_totals_def Let_def)

theorem totals_sum_summary_columns_witness:
  "total_sales (snd (compute_summary stable_argsort scenario None None None)) = 350 \<and>
   sum_list (map s_sales_value (fst (compute_summary stable_argsort scenario None None None))) = 350"
  using totals_sum_summary_columns [of stable_argsort scenario None None None]
  by (simp add: scenario_summary)

text \<open>
  C2. \<open>avg_aov\<close> is the unweighted mean of the AOV column of the summary, and 0 when the
  summary has no row. It is not the ratio of the total sales to the total transaction
  count: in the scenario of the specification, where category A has two transactions
  and category B one, the mean is 137.5 and the ratio 350 / 3.
\<close>

theorem avg_aov_mean_of_category_aov:
  "avg_aov (snd (compute_summary qs df sd ed sel)) =
     (if fst (compute_summary qs df sd ed sel) = [] then 0
      else sum_list (map s_AOV (fst (compute_summary qs df sd ed sel)))
             / real (length (fst (compute_summary qs df sd ed sel)))) \<and>
   avg_aov (snd (compute_summary stable_argsort scenario None None None)) \<noteq>
     total_sales (snd (compute_summary stable_argsort scenario None None None))
       / real (transactions (snd (compute_summary stable_argsort scenario None None None)))"
proof
  show "avg_aov (snd (compute_summary qs df sd ed sel)) =
     (if fst (compute_summary qs df sd ed sel) = [] then 0
      else sum_list (map s_AOV (fst (compute_summary qs df sd ed sel)))
             / real (length (fst (compute_summary qs df sd ed sel))))"
    by (simp add: compute_summary_def compute_totals_def mean_def Let_def)
  show "avg_aov (snd (compute_summary stable_argsort scenario None None None)) \<noteq>
     total_sales (snd (compute_summary stable_argsort scenario None None None))
       / real (transactions (snd (compute_summary stable_argsort scenario None None None)))"
    by (simp add: scenario_summary)
qed

theorem avg_aov_mean_of_category_aov_witness:
  "avg_aov (snd (compute_summary stable_argsort scenario None None None)) = (200 + 75) / 2 \<and>
   total_sales (snd (compute_summary stable_argsort scenario None None None))
       / real (transactions (snd (compute_summary stable_argsort scenario None None None))) = 350 / 3"
  using avg_aov_mean_of_category_aov [of stable_argsort scenario None None None]
  by (simp add: scenario_summary)





text \<open>
  C7. On the empty frame, and on any frame of which the filter keeps no row,
  \<^verbatim>\<open>compute_summary\<close> returns the empty summary and totals that are all zero, for every
  filter. The model is a total function, with no error branch: nothing in
  \<^verbatim>\<open>compute_summary\<close> raises on such a frame.
\<close>

theorem empty_selection_zero_totals:
  assumes "is_argsort qs"
  shows "compute_summary qs [] sd ed sel = ([], zero_totals) \<and>
         (select_rows df sd ed sel = [] \<longrightarrow> compute_summary qs df sd ed sel = ([], zero_totals))"
proof -
  have e: "select_rows [] sd ed sel = []"
    by (simp add: select_rows_def Let_def split: option.splits)
  have "compute_summary qs d sd ed sel = ([], zero_totals)" if "select_rows d sd ed sel = []" for d
    using that nargsort_desc_Nil [OF assms]
    by (simp add: compute_summary_def Let_def groupby_category_def group_keys_def
          List.map_filter_def sort_values_desc_def compute_totals_def zero_totals_def)
  with e show ?thesis by blast
qed

lemma scenario_out_of_range: "select_rows scenario (Some 100) (Some 200) (Some [''A'', ''B'']) = []"
  by code_simp

theorem empty_selection_zero_totals_witness:
  "is_argsort stable_argsort \<and>
   compute_summary stable_argsort [] (Some 0) (Some 9) (Some [''A'']) = ([], zero_totals) \<and>
   select_rows scenario (Some 100) (Some 200) (Some [''A'', ''B'']) = [] \<and>
   compute_summary stable_argsort scenario (Some 100) (Some 200) (Some [''A'', ''B''])
     = ([], \<lparr>total_sales = 0, total_profit = 0, avg_aov = 0, transactions = 0\<rparr>)"
  using empty_selection_zero_totals [OF is_argsort_stable, of "Some 0" "Some 9" "Some [''A'']"]
    empty_selection_zero_totals [OF is_argsort_stable, of "Some 100" "Some 200" "Some [''A'', ''B'']" scenario]
    is_argsort_stable scenario_out_of_range
  by (simp add: zero_totals_def)

lemma set_summary:
  assumes "is_argsort qs"
  shows "set (fst (compute_summary qs df sd ed sel))
           = (\<lambda>k. add_aov (agg_group (select_rows df sd ed sel) k))
               ` {k. \<exists>r \<in> set (select_rows df sd ed sel). category r = Some k}"
proof -
  have "set (group_keys d) = {k. \<exists>r \<in> set d. category r = Some k}" for d :: "txn list"
    by (auto simp: group_keys_def List.map_filter_def) force
  then have "set (groupby_category d) = agg_group d ` {k. \<exists>r \<in> set d. category r = Some k}"
    for d :: "txn list"
    by (simp add: groupby_category_def)
  then show ?thesis
    by (simp add: compute_summary_def Let_def set_sort_values_desc [OF assms] image_image)
qed

text \<open>
  C10. The transaction count of a summary row is the number of kept rows of its category
  whose \<^verbatim>\<open>id\<close> is not blank (\<^verbatim>\<open>("id", "count")\<close> skips blanks). So it is at most the
  number of kept rows of the category, and it can be strictly less: in \<open>blank_ids\<close> a
  category has a row with a blank \<^verbatim>\<open>id\<close>.
\<close>

theorem transactions_count_nonblank_ids:
  assumes "is_argsort qs"
  shows "(\<forall>s \<in> set (fst (compute_summary qs df sd ed sel)).
            s_transactions s =
              length (filter (\<lambda>r. category r = Some (s_category s) \<and> ident r \<noteq> None)
                        (select_rows df sd ed sel)) \<and>
            s_transactions s \<le>
              length (filter (\<lambda>r. category r = Some (s_category s)) (select_rows df sd ed sel))) \<and>
         (\<exists>s \<in> set (fst (compute_summary stable_argsort blank_ids None None None)).
            s_transactions s <
              length (filter (\<lambda>r. category r = Some (s_category s))
                        (select_rows blank_ids None None None)))"
proof
  have le: "length (filter (\<lambda>r. P r \<and> Q r) xs) \<le> length (filter P xs)"
    for P Q and xs :: "txn list"
    by (induction xs) auto
  show "\<forall>s \<in> set (fst (compute_summary qs df sd ed sel)).
            s_transactions s =
              length (filter (\<lambda>r. category r = Some (s_category s) \<and> ident r \<noteq> None)
                        (select_rows df sd ed sel)) \<and>
            s_transactions s \<le>
              length (filter (\<lambda>r. category r = Some (s_category s)) (select_rows df sd ed sel))"
    unfolding set_summary [OF assms]
    by (auto simp: add_aov_def agg_group_def count_ids_def Let_def intro: le)
  have "select_rows blank_ids None None None = blank_ids"
    by (simp add: select_rows_def)
  then show "\<exists>s \<in> set (fst (compute_summary stable_argsort blank_ids None None None)).
            s_transactions s <
              length (filter (\<lambda>r. category r = Some (s_category s))
                        (select_rows blank_ids None None None))"
    by (simp add: blank_ids_summary) (simp add: blank_ids_def mk_txn_def)
qed

theorem transactions_count_nonblank_ids_witness:
  "is_argsort stable_argsort \<and>
   (\<exists>s \<in> set (fst (compute_summary stable_argsort blank_ids None None None)).
      s_category s = ''D'' \<and> s_transactions s = 1 \<and>
      length (filter (\<lambda>r. category r = Some ''D'') (select_rows blank_ids None None None)) = 2)"
  using transactions_count_nonblank_ids [OF is_argsort_stable, of blank_ids None None None]
    is_argsort_stable
  by (simp add: blank_ids_summary) (simp add: select_rows_def blank_ids_def mk_txn_def)




section \<open>The truncation to the top N\<close>

lemma sort_values_desc_unique:
  assumes "is_argsort qs"
    and "sorted_wrt (\<lambda>a b. key a \<ge> key b) xs"
    and "distinct (map key xs)"
  shows "sort_values_desc qs key xs = xs"
proof -
  let ?ys = "sort_values_desc qs key xs"
  let ?f = "\<lambda>r. - key r"
  have m: "mset ?ys = mset xs"
    using assms(1) by (rule mset_sort_values_desc)
  have sy: "sorted (map ?f ?ys)"
    using sorted_sort_values_desc [OF assms(1), of key xs] by (simp add: sorted_wrt_map)
  have sx: "sorted (map ?f xs)"
    using assms(2) by (simp add: sorted_wrt_map)
  have inj: "inj_on ?f (set xs)"
    using assms(3) by (auto simp: distinct_map inj_on_def)
  have dx: "distinct (map ?f xs)"
    using assms(3) inj by (simp add: distinct_map)
  have mm: "mset (map ?f ?ys) = mset (map ?f xs)"
    using m by (metis mset_map)
  then have dy: "distinct (map ?f ?ys)"
    using dx by (metis mset_eq_imp_distinct_iff)
  have "set (map ?f ?ys) = set (map ?f xs)"
    using mm by (rule mset_eq_setD)
  then have eq: "map ?f ?ys = map ?f xs"
    using sy dy sx dx by (metis sorted_distinct_set_unique)
  have "set ?ys = set xs" using m by (rule mset_eq_setD)
  then have "inj_on ?f (set ?ys \<union> set xs)" using inj by simp
  then show ?thesis using eq by (rule map_inj_on [rotated])
qed

lemma sort_values_desc_stable_id:
  assumes "sorted_wrt (\<lambda>a b. key a \<ge> key b) xs"
  shows "sort_values_desc stable_argsort key xs = xs"
proof -
  let ?ks = "map key xs"
  let ?idx = "nargsort_desc stable_argsort ?ks"
  have desc: "sorted_wrt (\<ge>) ?ks"
    using assms by (simp add: sorted_wrt_map)
  have iset: "set ?idx = {0..<length xs}"
    using mset_nargsort_desc [OF is_argsort_stable, of ?ks] by (metis length_map mset_eq_setD set_upt)
  have Q: "sorted_wrt (\<lambda>u w. ?ks ! u > ?ks ! w \<or> (?ks ! u = ?ks ! w \<and> u < w)) ?idx"
    by (rule nargsort_desc_stable)
  have "sorted_wrt (<) ?idx"
  proof (rule sorted_wrt_mono_rel [OF _ Q])
    fix u w assume "u \<in> set ?idx" "w \<in> set ?idx"
      and q: "?ks ! u > ?ks ! w \<or> (?ks ! u = ?ks ! w \<and> u < w)"
    then have b: "u < length ?ks" "w < length ?ks" using iset by auto
    show "u < w"
    proof (rule ccontr)
      assume "\<not> u < w"
      then have "w < u \<or> w = u" by auto
      moreover have "?ks ! w \<ge> ?ks ! u" if "w < u"
        using sorted_wrt_nth_less [OF desc that] b by simp
      ultimately show False using q by auto
    qed
  qed
  then have "sorted ?idx \<and> distinct ?idx"
    by (simp add: strict_sorted_iff)
  then have "?idx = [0..<length xs]"
    using iset by (metis sorted_distinct_set_unique sorted_upt distinct_upt set_upt)
  then show ?thesis
    by (simp add: sort_values_desc_def map_nth)
qed

lemma nlargest_sorted:
  assumes "is_argsort qs" and "sorted_wrt (\<lambda>a b. key a \<ge> key b) xs" and "0 < n"
  shows "nlargest qs n key xs =
           (if n \<ge> length xs then sort_values_desc qs key xs else take n xs)"
proof -
  have "sorted (map (\<lambda>r. - key r) xs)"
    using assms(2) by (simp add: sorted_wrt_map)
  then have "sort_key (\<lambda>r. - key r) xs = xs"
    by (rule sort_key_id_if_sorted)
  then show ?thesis
    using assms(3) length_sort_values_desc [OF assms(1), of key xs] by (simp add: nlargest_def)
qed

lemma nlargest_take:
  assumes "is_argsort qs" and "sorted_wrt (\<lambda>a b. key a \<ge> key b) xs" and "0 < n"
    and "sort_values_desc qs key xs = xs"
    and "sort_values_desc qs key (take n xs) = take n xs"
  shows "nlargest qs n key xs = take n xs \<and>
         nlargest qs n key (nlargest qs n key xs) = nlargest qs n key xs \<and>
         (length xs < n \<longrightarrow> nlargest qs n key xs = xs)"
proof -
  have a: "nlargest qs n key xs = take n xs"
    using nlargest_sorted [OF assms(1-3)] assms(4) by simp
  have "sorted_wrt (\<lambda>a b. key a \<ge> key b) (take n xs)"
    using assms(2) by (rule sorted_wrt_take)
  then have "nlargest qs n key (take n xs) = take n xs"
    using nlargest_sorted [OF assms(1) _ assms(3), of key "take n xs"] assms(5) by simp
  then show ?thesis using a by simp
qed

text \<open>
  C9 (as amended). On a summary that \<^verbatim>\<open>compute_summary\<close> returned and a positive \<open>n\<close>:
  when \<open>n\<close> is below the length of the summary, the truncation is its first \<open>n\<close> rows;
  when \<open>n\<close> is at least the length, pandas sorts the summary again with the default
  quicksort, and the result has the rows of the summary, in descending order of
  \<open>sales_value\<close>. When no two rows of the summary have the same \<open>sales_value\<close>, or when
  the argsort is the stable one, the truncation is the first \<open>n\<close> rows for every \<open>n\<close>,
  applying it twice is applying it once, and the whole summary comes back when \<open>n\<close>
  exceeds its length. Rows of equal \<open>sales_value\<close> may be reordered otherwise.
\<close>

theorem top_n_summary_spec:
  assumes "is_argsort qs" and "0 < n"
  shows "(n < length (fst (compute_summary qs df sd ed sel)) \<longrightarrow>
            top_n_summary qs n (fst (compute_summary qs df sd ed sel))
              = take n (fst (compute_summary qs df sd ed sel))) \<and>
         (length (fst (compute_summary qs df sd ed sel)) \<le> n \<longrightarrow>
            mset (top_n_summary qs n (fst (compute_summary qs df sd ed sel)))
              = mset (fst (compute_summary qs df sd ed sel))) \<and>
         sorted_wrt (\<lambda>a b. s_sales_value a \<ge> s_sales_value b)
           (top_n_summary qs n (fst (compute_summary qs df sd ed sel))) \<and>
         (distinct (map s_sales_value (fst (compute_summary qs df sd ed sel))) \<longrightarrow>
            top_n_summary qs n (fst (compute_summary qs df sd ed sel))
              = take n (fst (compute_summary qs df sd ed sel)) \<and>
            top_n_summary qs n (top_n_summary qs n (fst (compute_summary qs df sd ed sel)))
              = top_n_summary qs n (fst (compute_summary qs df sd ed sel)) \<and>
            (length (fst (compute_summary qs df sd ed sel)) < n \<longrightarrow>
               top_n_summary qs n (fst (compute_summary qs df sd ed sel))
                 = fst (compute_summary qs df sd ed sel))) \<and>
         top_n_summary stable_argsort n (fst (compute_summary qs df sd ed sel))
           = take n (fst (compute_summary qs df sd ed sel)) \<and>
         top_n_summary stable_argsort n
             (top_n_summary stable_argsort n (fst (compute_summary qs df sd ed sel)))
           = top_n_summary stable_argsort n (fst (compute_summary qs df sd ed sel)) \<and>
         (length (fst (compute_summary qs df sd ed sel)) < n \<longrightarrow>
            top_n_summary stable_argsort n (fst (compute_summary qs df sd ed sel))
              = fst (compute_summary qs df sd ed sel))"
proof -
  let ?S = "fst (compute_summary qs df sd ed sel)"
  let ?key = s_sales_value
  have srt: "sorted_wrt (\<lambda>a b. ?key a \<ge> ?key b) ?S"
    using assms(1) by (rule sorted_summary)
  have srt_take: "sorted_wrt (\<lambda>a b. ?key a \<ge> ?key b) (take n ?S)"
    using srt by (rule sorted_wrt_take)
  have top: "top_n_summary qs n ?S = (if n \<ge> length ?S then sort_values_desc qs ?key ?S else take n ?S)"
    unfolding top_n_summary_def using assms(1) srt assms(2) by (rule nlargest_sorted)
  have c1: "n < length ?S \<longrightarrow> top_n_summary qs n ?S = take n ?S"
    using top by simp
  have c2: "length ?S \<le> n \<longrightarrow> mset (top_n_summary qs n ?S) = mset ?S"
    using top mset_sort_values_desc [OF assms(1), of ?key ?S] by simp
  have c3: "sorted_wrt (\<lambda>a b. ?key a \<ge> ?key b) (top_n_summary qs n ?S)"
    using top srt_take sorted_sort_values_desc [OF assms(1), of ?key ?S] by simp
  have c4: "top_n_summary qs n ?S = take n ?S \<and>
            top_n_summary qs n (top_n_summary qs n ?S) = top_n_summary qs n ?S \<and>
            (length ?S < n \<longrightarrow> top_n_summary qs n ?S = ?S)"
    if d: "distinct (map ?key ?S)"
  proof -
    have "distinct (map ?key (take n ?S))"
      using d by (metis distinct_take take_map)
    then have "sort_values_desc qs ?key (take n ?S) = take n ?S"
      using assms(1) srt_take by (rule sort_values_desc_unique [rotated 2])
    moreover have "sort_values_desc qs ?key ?S = ?S"
      using assms(1) srt d by (rule sort_values_desc_unique)
    ultimately show ?thesis
      unfolding top_n_summary_def using nlargest_take [OF assms(1) srt assms(2)] by blast
  qed
  have c5: "top_n_summary stable_argsort n ?S = take n ?S \<and>
            top_n_summary stable_argsort n (top_n_summary stable_argsort n ?S)
              = top_n_summary stable_argsort n ?S \<and>
            (length ?S < n \<longrightarrow> top_n_summary stable_argsort n ?S = ?S)"
    unfolding top_n_summary_def
    using nlargest_take [OF is_argsort_stable srt assms(2)]
      sort_values_desc_stable_id [OF srt] sort_values_desc_stable_id [OF srt_take]
    by blast
  show ?thesis
    using c1 c2 c3 c4 c5 by blast
qed

theorem top_n_summary_spec_witness:
  "is_argsort stable_argsort \<and> (0::nat) < 1 \<and>
   distinct (map s_sales_value (fst (compute_summary stable_argsort scenario None None None))) \<and>
   top_n_summary stable_argsort 1 (fst (compute_summary stable_argsort scenario None None None)) =
     [\<lparr>s_category = ''B'', s_sales_value = 200, s_net_profit = 50, s_transactions = 1, s_AOV = 200\<rparr>] \<and>
   top_n_summary stable_argsort 1
       (top_n_summary stable_argsort 1 (fst (compute_summary stable_argsort scenario None None None))) =
     top_n_summary stable_argsort 1 (fst (compute_summary stable_argsort scenario None None None)) \<and>
   length (fst (compute_summary stable_argsort scenario None None None)) < 12 \<and>
   top_n_summary stable_argsort 12 (fst (compute_summary stable_argsort scenario None None None)) =
     fst (compute_summary stable_argsort scenario None None None)"
proof -
  let ?S = "fst (compute_summary stable_argsort scenario None None None)"
  have d: "distinct (map s_sales_value ?S)"
    by (simp add: scenario_summary)
  have l: "length ?S < 12"
    by (simp add: scenario_summary)
  have t: "take 1 ?S =
     [\<lparr>s_category = ''B'', s_sales_value = 200, s_net_profit = 50, s_transactions = 1, s_AOV = 200\<rparr>]"
    by (simp add: scenario_summary)
  have one: "top_n_summary stable_argsort 1 ?S = take 1 ?S \<and>
             top_n_summary stable_argsort 1 (top_n_summary stable_argsort 1 ?S)
               = top_n_summary stable_argsort 1 ?S"
    using top_n_summary_spec [OF is_argsort_stable zero_less_one, of scenario None None None] d
    by blast
  have twelve: "top_n_summary stable_argsort 12 ?S = ?S"
    using top_n_summary_spec [OF is_argsort_stable, of 12 scenario None None None] d l by simp
  have pos: "(0::nat) < 1"
    by simp
  have first: "top_n_summary stable_argsort 1 ?S =
     [\<lparr>s_category = ''B'', s_sales_value = 200, s_net_profit = 50, s_transactions = 1, s_AOV = 200\<rparr>]"
    using one t by metis
  show ?thesis
    using is_argsort_stable pos d l first one twelve by blast
qed

text \<open>
  C9 as stated fails: on the summary of eighteen categories of equal sales, with numpy's
  quicksort and \<open>n = 30\<close>, the truncation returns the labels in another order than the
  summary has them, and a second truncation changes the order again.
\<close>

theorem top_n_ties_counterexample:
  "map s_category (fst (compute_summary numpy_argsort ties18 None None None)) =
     [''a'', ''b'', ''q'', ''p'', ''o'', ''n'', ''m'', ''l'', ''k'', ''j'', ''i'', ''h'', ''g'', ''f'',
      ''e'', ''d'', ''c'', ''r''] \<and>
   map s_category
     (top_n_summary numpy_argsort 30 (fst (compute_summary numpy_argsort ties18 None None None))) =
     [''a'', ''b'', ''c'', ''d'', ''e'', ''f'', ''g'', ''h'', ''i'', ''j'', ''k'', ''l'', ''m'', ''n'',
      ''o'', ''p'', ''q'', ''r''] \<and>
   map s_category
     (top_n_summary numpy_argsort 30
        (top_n_summary numpy_argsort 30 (fst (compute_summary numpy_argsort ties18 None None None)))) =
     [''a'', ''b'', ''q'', ''p'', ''o'', ''n'', ''m'', ''l'', ''k'', ''j'', ''i'', ''h'', ''g'', ''f'',
      ''e'', ''d'', ''c'', ''r'']"
  by code_simp

section \<open>The top-products table\<close>

lemma sku_key_eq: "sku_key r = Some k \<longleftrightarrow> sku_id r = Some (fst k) \<and> sku_name r = Some (snd k)"
  by (cases k) (auto simp: sku_key_def split: option.splits)

lemma set_sku_keys: "set (sku_keys d) = {k. \<exists>r \<in> set d. sku_key r = Some k}"
  by (auto simp: sku_keys_def List.map_filter_def) force

lemma distinct_sku_keys: "distinct (sku_keys d)"
  by (simp add: sku_keys_def)

lemma take_sorted_top:
  assumes "sorted_wrt (\<lambda>a b. f a \<ge> f b) L" and "x \<in> set L"
  shows "x \<in> set (take m L) \<or> (length (take m L) = m \<and> (\<forall>p \<in> set (take m L). (f x :: real) \<le> f p))"
proof -
  obtain k where k: "k < length L" "L ! k = x"
    using assms(2) by (auto simp: in_set_conv_nth)
  show ?thesis
  proof (cases "k < m")
    case True
    then have "x \<in> set (take m L)"
      using k by (auto simp: in_set_conv_nth)
    then show ?thesis ..
  next
    case False
    then have len: "length (take m L) = m" using k by simp
    have "f x \<le> f p" if "p \<in> set (take m L)" for p
    proof -
      have "\<exists>j < length (take m L). take m L ! j = p"
        using that by (simp only: in_set_conv_nth)
      then obtain j where "j < length (take m L)" "take m L ! j = p"
        by blast
      then have j: "j < m" "j < length L" "L ! j = p"
        by simp_all
      then have "j < k" using False by simp
      then show ?thesis
        using sorted_wrt_nth_less [OF assms(1), of j k] k j by simp
    qed
    with len show ?thesis by blast
  qed
qed

lemma restrict_categories_filter:
  "restrict_categories df sel =
     filter (\<lambda>r. case sel of None \<Rightarrow> True
                  | Some cs \<Rightarrow> cs = [] \<or> (case category r of None \<Rightarrow> False | Some c \<Rightarrow> c \<in> set cs)) df"
  by (cases sel) (auto simp: restrict_categories_def isin_def intro!: filter_cong split: option.splits)

lemma restrict_categories_dates:
  "restrict_categories (map (\<lambda>r. r\<lparr>order_date := f r\<rparr>) df) sel
     = map (\<lambda>r. r\<lparr>order_date := f r\<rparr>) (restrict_categories df sel)"
  by (cases sel) (simp_all add: restrict_categories_def filter_map comp_def)

lemma groupby_sku_dates:
  "groupby_sku (map (\<lambda>r. r\<lparr>order_date := f r\<rparr>) d) = groupby_sku d"
proof -
  let ?u = "\<lambda>r. r\<lparr>order_date := f r\<rparr>"
  have k: "sku_key (?u r) = sku_key r" for r by (simp add: sku_key_def split: option.splits)
  have "sku_keys (map ?u d) = sku_keys d"
    by (simp add: sku_keys_def List.map_filter_def filter_map comp_def k)
  moreover have "agg_sku (map ?u d) key = agg_sku d key" for key
    by (simp add: agg_sku_def count_ids_def filter_map comp_def k Let_def)
  ultimately show ?thesis by (simp add: groupby_sku_def)
qed

lemma top_products_rows:
  assumes "is_argsort qs"
  shows "set (sort_values_desc qs p_sales_value (groupby_sku d))
           = agg_sku d ` {k. \<exists>r \<in> set d. sku_key r = Some k}"
  by (simp add: set_sort_values_desc [OF assms] groupby_sku_def set_sku_keys)

text \<open>
  C8. The top-products table has at most 10 rows, in descending order of sales value,
  one per pair of product id and product name. Each row carries the sum of the sales
  values and the count of non-blank ids of the rows of its pair, among the rows that
  the category selection keeps; a pair that is missing from the table is beaten by
  every row of a full table. The selection keeps every row when it is absent or empty
  and the rows with a selected label otherwise. No date is looked at: changing the
  dates of the rows changes nothing.
\<close>

theorem top_products_spec:
  assumes "is_argsort qs"
  shows "length (top_products qs df sel) \<le> 10 \<and>
         sorted_wrt (\<lambda>a b. p_sales_value a \<ge> p_sales_value b) (top_products qs df sel) \<and>
         distinct (map (\<lambda>p. (p_sku_id p, p_sku_name p)) (top_products qs df sel)) \<and>
         (\<forall>p \<in> set (top_products qs df sel).
            (\<exists>r \<in> set (restrict_categories df sel).
               sku_id r = Some (p_sku_id p) \<and> sku_name r = Some (p_sku_name p)) \<and>
            p_sales_value p =
              sum_list (map sales_value
                (filter (\<lambda>r. sku_id r = Some (p_sku_id p) \<and> sku_name r = Some (p_sku_name p))
                   (restrict_categories df sel))) \<and>
            p_transactions p =
              length (filter (\<lambda>r. (sku_id r = Some (p_sku_id p) \<and> sku_name r = Some (p_sku_name p))
                                   \<and> ident r \<noteq> None)
                        (restrict_categories df sel))) \<and>
         (\<forall>r \<in> set (restrict_categories df sel). \<forall>i n.
            sku_id r = Some i \<and> sku_name r = Some n \<longrightarrow>
              (\<exists>p \<in> set (top_products qs df sel). p_sku_id p = i \<and> p_sku_name p = n) \<or>
              (length (top_products qs df sel) = 10 \<and>
               (\<forall>p \<in> set (top_products qs df sel).
                  sum_list (map sales_value
                    (filter (\<lambda>r. sku_id r = Some i \<and> sku_name r = Some n)
                       (restrict_categories df sel))) \<le> p_sales_value p))) \<and>
         restrict_categories df sel =
           filter (\<lambda>r. case sel of None \<Rightarrow> True
                        | Some cs \<Rightarrow> cs = [] \<or>
                            (case category r of None \<Rightarrow> False | Some c \<Rightarrow> c \<in> set cs)) df \<and>
         top_products qs (map (\<lambda>r. r\<lparr>order_date := f r\<rparr>) df) sel = top_products qs df sel"
proof -
  let ?d = "restrict_categories df sel"
  let ?L = "sort_values_desc qs p_sales_value (groupby_sku ?d)"
  have top: "top_products qs df sel = take 10 ?L"
    by (simp add: top_products_def)
  have srt: "sorted_wrt (\<lambda>a b. p_sales_value a \<ge> p_sales_value b) ?L"
    using assms by (rule sorted_sort_values_desc)
  have setL: "set ?L = agg_sku ?d ` {k. \<exists>r \<in> set ?d. sku_key r = Some k}"
    using assms by (rule top_products_rows)
  have c1: "length (top_products qs df sel) \<le> 10"
    by (simp add: top)
  have c2: "sorted_wrt (\<lambda>a b. p_sales_value a \<ge> p_sales_value b) (top_products qs df sel)"
    unfolding top using srt by (rule sorted_wrt_take)
  have "mset (map (\<lambda>p. (p_sku_id p, p_sku_name p)) ?L)
          = mset (map (\<lambda>p. (p_sku_id p, p_sku_name p)) (groupby_sku ?d))"
    using mset_sort_values_desc [OF assms, of p_sales_value "groupby_sku ?d"] by (metis mset_map)
  moreover have "map (\<lambda>p. (p_sku_id p, p_sku_name p)) (groupby_sku ?d) = sku_keys ?d"
    by (simp add: groupby_sku_def agg_sku_def Let_def comp_def)
  ultimately have "distinct (map (\<lambda>p. (p_sku_id p, p_sku_name p)) ?L)"
    using distinct_sku_keys [of ?d] by (metis mset_eq_imp_distinct_iff)
  then have c3: "distinct (map (\<lambda>p. (p_sku_id p, p_sku_name p)) (top_products qs df sel))"
    unfolding top by (metis distinct_take take_map)
  have row: "(\<exists>r \<in> set ?d. sku_id r = Some (p_sku_id p) \<and> sku_name r = Some (p_sku_name p)) \<and>
            p_sales_value p =
              sum_list (map sales_value
                (filter (\<lambda>r. sku_id r = Some (p_sku_id p) \<and> sku_name r = Some (p_sku_name p)) ?d)) \<and>
            p_transactions p =
              length (filter (\<lambda>r. (sku_id r = Some (p_sku_id p) \<and> sku_name r = Some (p_sku_name p))
                                   \<and> ident r \<noteq> None) ?d)"
    if "p \<in> set ?L" for p
  proof -
    have "p \<in> agg_sku ?d ` {k. \<exists>r \<in> set ?d. sku_key r = Some k}"
      using that setL by simp
    then obtain k r where k: "p = agg_sku ?d k" "r \<in> set ?d" "sku_key r = Some k"
      by blast
    show ?thesis
      using k by (auto simp: agg_sku_def count_ids_def Let_def sku_key_eq conj_commute)
  qed
  have c4: "\<forall>p \<in> set (top_products qs df sel).
            (\<exists>r \<in> set ?d. sku_id r = Some (p_sku_id p) \<and> sku_name r = Some (p_sku_name p)) \<and>
            p_sales_value p =
              sum_list (map sales_value
                (filter (\<lambda>r. sku_id r = Some (p_sku_id p) \<and> sku_name r = Some (p_sku_name p)) ?d)) \<and>
            p_transactions p =
              length (filter (\<lambda>r. (sku_id r = Some (p_sku_id p) \<and> sku_name r = Some (p_sku_name p))
                                   \<and> ident r \<noteq> None) ?d)"
    using row unfolding top by (meson in_set_takeD)
  have c5: "(\<exists>p \<in> set (top_products qs df sel). p_sku_id p = i \<and> p_sku_name p = n) \<or>
              (length (top_products qs df sel) = 10 \<and>
               (\<forall>p \<in> set (top_products qs df sel).
                  sum_list (map sales_value
                    (filter (\<lambda>r. sku_id r = Some i \<and> sku_name r = Some n) ?d)) \<le> p_sales_value p))"
    if "r \<in> set ?d" "sku_id r = Some i \<and> sku_name r = Some n" for r i n
  proof -
    let ?x = "agg_sku ?d (i, n)"
    have "sku_key r = Some (i, n)" using that by (simp add: sku_key_eq)
    then have "?x \<in> set ?L" using that(1) setL by blast
    then have "?x \<in> set (take 10 ?L) \<or>
        (length (take 10 ?L) = 10 \<and> (\<forall>p \<in> set (take 10 ?L). p_sales_value ?x \<le> p_sales_value p))"
      using srt by (rule take_sorted_top [rotated])
    moreover have "p_sku_id ?x = i \<and> p_sku_name ?x = n"
      by (simp add: agg_sku_def Let_def)
    moreover have "p_sales_value ?x =
        sum_list (map sales_value (filter (\<lambda>r. sku_id r = Some i \<and> sku_name r = Some n) ?d))"
      by (simp add: agg_sku_def Let_def sku_key_eq)
    ultimately show ?thesis unfolding top by metis
  qed
  have c7: "top_products qs (map (\<lambda>r. r\<lparr>order_date := f r\<rparr>) df) sel = top_products qs df sel"
    by (simp add: top_products_def restrict_categories_dates groupby_sku_dates)
  show ?thesis
    using c1 c2 c3 c4 c5 c7 restrict_categories_filter [of df sel] by blast
qed

lemma products12_selected:
  "top_products stable_argsort products12 (Some [''X'']) =
     [\<lparr>p_sku_id = ''k'', p_sku_name = ''sku-k'', p_sales_value = 11, p_transactions = 1\<rparr>,
      \<lparr>p_sku_id = ''i'', p_sku_name = ''sku-i'', p_sales_value = 9, p_transactions = 1\<rparr>,
      \<lparr>p_sku_id = ''g'', p_sku_name = ''sku-g'', p_sales_value = 7, p_transactions = 1\<rparr>,
      \<lparr>p_sku_id = ''e'', p_sku_name = ''sku-e'', p_sales_value = 5, p_transactions = 1\<rparr>,
      \<lparr>p_sku_id = ''c'', p_sku_name = ''sku-c'', p_sales_value = 3, p_transactions = 1\<rparr>,
      \<lparr>p_sku_id = ''a'', p_sku_name = ''sku-a'', p_sales_value = 3 / 2, p_transactions = 1\<rparr>]"
  by code_simp

lemma products12_all:
  "map p_sku_id (top_products stable_argsort products12 None) =
     [''l'', ''k'', ''j'', ''i'', ''h'', ''g'', ''f'', ''e'', ''d'', ''c'']"
  by code_simp

theorem top_products_spec_witness:
  "is_argsort stable_argsort \<and>
   length (top_products stable_argsort products12 None) \<le> 10 \<and>
   map p_sku_id (top_products stable_argsort products12 None) =
     [''l'', ''k'', ''j'', ''i'', ''h'', ''g'', ''f'', ''e'', ''d'', ''c''] \<and>
   sorted_wrt (\<lambda>a b. p_sales_value a \<ge> p_sales_value b)
     (top_products stable_argsort products12 (Some [''X''])) \<and>
   map p_sales_value (top_products stable_argsort products12 (Some [''X''])) = [11, 9, 7, 5, 3, 3 / 2] \<and>
   top_products stable_argsort (map (\<lambda>r. r\<lparr>order_date := None\<rparr>) products12) (Some [''X''])
     = top_products stable_argsort products12 (Some [''X''])"
  using top_products_spec [OF is_argsort_stable, of products12 None "\<lambda>r. None"]
    top_products_spec [OF is_argsort_stable, of products12 "Some [''X'']" "\<lambda>r. None"]
    is_argsort_stable products12_all
  by (simp add: products12_selected)

section \<open>Properties of load_data\<close>

lemma sequence_Inr: "sequence xs = Inr ys \<Longrightarrow> xs = map Inr ys"
proof (induction xs arbitrary: ys rule: sequence.induct)
  case 1
  then show ?case by simp
next
  case (2 e xs)
  then show ?case by simp
next
  case (3 x xs)
  then obtain zs where z: "sequence xs = Inr zs" "ys = x # zs"
    by (cases "sequence xs") simp_all
  then have "xs = map Inr zs" using 3 by blast
  then show ?case using z by simp
qed

lemma sequence_map_Inr: "sequence (map Inr ys) = Inr ys"
  by (induction ys) simp_all

lemma sequence_Inl: "sequence xs = Inl e \<Longrightarrow> Inl e \<in> set xs"
proof (induction xs rule: sequence.induct)
  case 1
  then show ?case by simp
next
  case (2 e xs)
  then show ?case by simp
next
  case (3 x xs)
  then show ?case by (cases "sequence xs") simp_all
qed

lemma sequence_raises: "Inl e \<in> set xs \<Longrightarrow> \<exists>e'. sequence xs = Inl e'"
proof (induction xs rule: sequence.induct)
  case 1
  then show ?case by simp
next
  case (2 e xs)
  then show ?case by simp
next
  case (3 x xs)
  then show ?case by (cases "sequence xs") simp_all
qed

lemma sequence_nth:
  assumes "sequence (map f vs) = Inr ys"
  shows "length ys = length vs \<and> (\<forall>i < length vs. f (vs ! i) = Inr (ys ! i))"
proof -
  have m: "map f vs = map Inr ys" using assms by (rule sequence_Inr)
  then have l: "length ys = length vs" by (metis length_map)
  have "f (vs ! i) = Inr (ys ! i)" if "i < length vs" for i
    using m that l by (metis nth_map)
  with l show ?thesis by blast
qed


lemma set_add_column: "set (add_column c cols) = insert c (set cols)"
  by (auto simp: add_column_def)

lemma load_data_no_sales:
  "''after_discount'' \<notin> set (header df) \<Longrightarrow> load_data dt rd df = Inl (KeyError ''after_discount'')"
  by (simp add: load_data_def Let_def set_add_column)

lemma load_data_no_cogs:
  "''after_discount'' \<in> set (header df) \<Longrightarrow> ''cogs'' \<notin> set (header df) \<Longrightarrow>
     load_data dt rd df = Inl (KeyError ''cogs'')"
  by (simp add: load_data_def Let_def set_add_column)

lemma load_data_columns_present:
  assumes "''after_discount'' \<in> set (header df)" and "''cogs'' \<in> set (header df)"
  shows "load_data dt rd df =
     (case to_numeric rd (map (\<lambda>r. fillna 0 (raw_cogs r)) (body df)) of
        Inl e \<Rightarrow> Inl e
      | Inr cg \<Rightarrow>
          (case minuend (map (\<lambda>r. fillna 0 (raw_after_discount r)) (body df)) of
             Inl e \<Rightarrow> Inl e
           | Inr sv \<Rightarrow>
               Inr \<lparr>columns =
                      add_column ''net_profit'' (add_column ''sales_value''
                        (if ''category'' \<notin> set (header df)
                         then add_column ''category'' (header df) else header df)),
                    rows = build_rows (body df)
                      (if ''order_date'' \<in> set (header df)
                       then map (\<lambda>r. dt (raw_order_date r)) (body df)
                       else map (\<lambda>r. None) (body df))
                      (if ''category'' \<notin> set (header df)
                       then map (\<lambda>r. Some ''Unknown'') (body df)
                       else map raw_category (body df))
                      sv cg\<rparr>))"
  using assms by (simp add: load_data_def Let_def set_add_column)

lemma load_data_row:
  assumes "load_data dt rd df = Inr out" and "i < length (body df)"
  shows "length (rows out) = length (body df) \<and>
         minuend1 (fillna 0 (raw_after_discount (body df ! i))) = Inr (sales_value (rows out ! i)) \<and>
         to_numeric1 rd (fillna 0 (raw_cogs (body df ! i))) = Inr (cogs (rows out ! i)) \<and>
         net_profit (rows out ! i) = sales_value (rows out ! i) - cogs (rows out ! i) \<and>
         category (rows out ! i) =
           (if ''category'' \<notin> set (header df) then Some ''Unknown'' else raw_category (body df ! i)) \<and>
         ident (rows out ! i) = raw_id (body df ! i)"
proof -
  have h: "''after_discount'' \<in> set (header df)" "''cogs'' \<in> set (header df)"
    using assms(1) load_data_no_sales [of df dt rd] load_data_no_cogs [of df dt rd] by auto
  obtain cg where cg: "to_numeric rd (map (\<lambda>r. fillna 0 (raw_cogs r)) (body df)) = Inr cg"
    using assms(1) unfolding load_data_columns_present [OF h]
    by (cases "to_numeric rd (map (\<lambda>r. fillna 0 (raw_cogs r)) (body df))") simp_all
  obtain sv where sv: "minuend (map (\<lambda>r. fillna 0 (raw_after_discount r)) (body df)) = Inr sv"
    using assms(1) unfolding load_data_columns_present [OF h] cg
    by (cases "minuend (map (\<lambda>r. fillna 0 (raw_after_discount r)) (body df))") simp_all
  have out: "rows out = build_rows (body df)
                      (if ''order_date'' \<in> set (header df)
                       then map (\<lambda>r. dt (raw_order_date r)) (body df)
                       else map (\<lambda>r. None) (body df))
                      (if ''category'' \<notin> set (header df)
                       then map (\<lambda>r. Some ''Unknown'') (body df)
                       else map raw_category (body df))
                      sv cg"
    using assms(1) unfolding load_data_columns_present [OF h] cg sv by auto
  have c: "length cg = length (body df) \<and>
           (\<forall>i < length (body df). to_numeric1 rd (fillna 0 (raw_cogs (body df ! i))) = Inr (cg ! i))"
    using sequence_nth [of "to_numeric1 rd" "map (\<lambda>r. fillna 0 (raw_cogs r)) (body df)" cg] cg
    by (simp add: to_numeric_def)
  have s: "length sv = length (body df) \<and>
           (\<forall>i < length (body df). minuend1 (fillna 0 (raw_after_discount (body df ! i))) = Inr (sv ! i))"
    using sequence_nth [of minuend1 "map (\<lambda>r. fillna 0 (raw_after_discount r)) (body df)" sv] sv
    by (simp add: minuend_def)
  show ?thesis
    using c s assms(2) by (simp add: out build_rows_def)
qed


lemma sequence_ok:
  assumes "\<forall>v \<in> set vs. \<exists>x. f v = Inr x"
  shows "\<exists>ys. sequence (map f vs) = Inr ys"
  using assms
proof (induction vs)
  case Nil
  then show ?case by simp
next
  case (Cons v vs)
  then obtain x ys where "f v = Inr x" "sequence (map f vs) = Inr ys"
    by auto
  then show ?case by simp
qed

lemma to_numeric_errors:
  assumes "to_numeric rd vs = Inl e"
  shows "e = ValueError \<or> e = TypeError"
proof -
  have "Inl e \<in> set (map (to_numeric1 rd) vs)"
    using assms unfolding to_numeric_def by (rule sequence_Inl)
  then obtain v where "to_numeric1 rd v = Inl e" by auto
  then show ?thesis
    by (auto simp: to_numeric1_def split: val.splits option.splits)
qed

text \<open>
  C3 (as amended). When \<^verbatim>\<open>load_data\<close> returns, every row is kept, a blank sales cell
  has become 0, a blank cost cell has become 0, every label is \<^verbatim>\<open>"Unknown"\<close> when the
  sheet has no category column, and the profit is the difference. Blanks never make it
  raise: with the sales and cost columns present, numbers or blanks in the sales
  column and numbers, blanks or number texts in the cost column, it returns. A cost
  that is a text pandas cannot read as a number is not replaced by 0: \<^verbatim>\<open>to_numeric\<close>
  raises.
\<close>

theorem load_data_defaults:
  "(load_data dt rd df = Inr out \<longrightarrow>
      length (rows out) = length (body df) \<and>
      (\<forall>i < length (body df).
         (raw_after_discount (body df ! i) = None \<longrightarrow> sales_value (rows out ! i) = 0) \<and>
         (raw_cogs (body df ! i) = None \<longrightarrow> cogs (rows out ! i) = 0) \<and>
         (''category'' \<notin> set (header df) \<longrightarrow> category (rows out ! i) = Some ''Unknown'') \<and>
         net_profit (rows out ! i) = sales_value (rows out ! i) - cogs (rows out ! i))) \<and>
   (''after_discount'' \<in> set (header df) \<and> ''cogs'' \<in> set (header df) \<and>
    (\<forall>r \<in> set (body df).
       (raw_after_discount r = None \<or> (\<exists>x. raw_after_discount r = Some (Num x))) \<and>
       (raw_cogs r = None \<or> (\<exists>x. raw_cogs r = Some (Num x)) \<or>
        (\<exists>s x. raw_cogs r = Some (Text s) \<and> rd s = Some x)))
      \<longrightarrow> (\<exists>res. load_data dt rd df = Inr res)) \<and>
   (''after_discount'' \<in> set (header df) \<and> ''cogs'' \<in> set (header df) \<and>
    (\<exists>r \<in> set (body df). \<exists>s. raw_cogs r = Some (Text s) \<and> rd s = None)
      \<longrightarrow> load_data dt rd df = Inl ValueError \<or> load_data dt rd df = Inl TypeError)"
proof (intro conjI impI)
  assume ok: "load_data dt rd df = Inr out"
  show "length (rows out) = length (body df)"
  proof (cases "body df")
    case Nil
    have h: "''after_discount'' \<in> set (header df)" "''cogs'' \<in> set (header df)"
      using ok load_data_no_sales [of df dt rd] load_data_no_cogs [of df dt rd] by auto
    show ?thesis
      using ok unfolding load_data_columns_present [OF h]
      by (auto simp: Nil to_numeric_def minuend_def build_rows_def)
  next
    case (Cons r rs)
    then show ?thesis
      using load_data_row [OF ok, of 0] by simp
  qed
  show "\<forall>i < length (body df).
         (raw_after_discount (body df ! i) = None \<longrightarrow> sales_value (rows out ! i) = 0) \<and>
         (raw_cogs (body df ! i) = None \<longrightarrow> cogs (rows out ! i) = 0) \<and>
         (''category'' \<notin> set (header df) \<longrightarrow> category (rows out ! i) = Some ''Unknown'') \<and>
         net_profit (rows out ! i) = sales_value (rows out ! i) - cogs (rows out ! i)"
  proof (intro allI impI)
    fix i assume "i < length (body df)"
    from load_data_row [OF ok this] show
      "(raw_after_discount (body df ! i) = None \<longrightarrow> sales_value (rows out ! i) = 0) \<and>
       (raw_cogs (body df ! i) = None \<longrightarrow> cogs (rows out ! i) = 0) \<and>
       (''category'' \<notin> set (header df) \<longrightarrow> category (rows out ! i) = Some ''Unknown'') \<and>
       net_profit (rows out ! i) = sales_value (rows out ! i) - cogs (rows out ! i)"
      by (auto simp: fillna_def minuend1_def to_numeric1_def)
  qed
next
  assume a: "''after_discount'' \<in> set (header df) \<and> ''cogs'' \<in> set (header df) \<and>
    (\<forall>r \<in> set (body df).
       (raw_after_discount r = None \<or> (\<exists>x. raw_after_discount r = Some (Num x))) \<and>
       (raw_cogs r = None \<or> (\<exists>x. raw_cogs r = Some (Num x)) \<or>
        (\<exists>s x. raw_cogs r = Some (Text s) \<and> rd s = Some x)))"
  then have h: "''after_discount'' \<in> set (header df)" "''cogs'' \<in> set (header df)"
    by simp_all
  have "\<forall>r \<in> set (body df). \<exists>x. to_numeric1 rd (fillna 0 (raw_cogs r)) = Inr x"
    using a by (fastforce simp: fillna_def to_numeric1_def)
  then obtain cg where cg: "to_numeric rd (map (\<lambda>r. fillna 0 (raw_cogs r)) (body df)) = Inr cg"
    using sequence_ok [of "body df" "\<lambda>r. to_numeric1 rd (fillna 0 (raw_cogs r))"]
    by (auto simp: to_numeric_def comp_def)
  have "\<forall>r \<in> set (body df). \<exists>x. minuend1 (fillna 0 (raw_after_discount r)) = Inr x"
    using a by (fastforce simp: fillna_def minuend1_def)
  then obtain sv where sv: "minuend (map (\<lambda>r. fillna 0 (raw_after_discount r)) (body df)) = Inr sv"
    using sequence_ok [of "body df" "\<lambda>r. minuend1 (fillna 0 (raw_after_discount r))"]
    by (auto simp: minuend_def comp_def)
  show "\<exists>res. load_data dt rd df = Inr res"
    unfolding load_data_columns_present [OF h] cg sv by simp
next
  assume a: "''after_discount'' \<in> set (header df) \<and> ''cogs'' \<in> set (header df) \<and>
    (\<exists>r \<in> set (body df). \<exists>s. raw_cogs r = Some (Text s) \<and> rd s = None)"
  then have h: "''after_discount'' \<in> set (header df)" "''cogs'' \<in> set (header df)"
    by simp_all
  obtain r s where r: "r \<in> set (body df)" "raw_cogs r = Some (Text s)" "rd s = None"
    using a by blast
  then have "to_numeric1 rd (fillna 0 (raw_cogs r)) = Inl ValueError"
    by (simp add: fillna_def to_numeric1_def)
  then have "Inl ValueError \<in> set (map (to_numeric1 rd) (map (\<lambda>r. fillna 0 (raw_cogs r)) (body df)))"
    using r(1) by force
  then obtain e where e: "to_numeric rd (map (\<lambda>r. fillna 0 (raw_cogs r)) (body df)) = Inl e"
    unfolding to_numeric_def using sequence_raises by blast
  then have "e = ValueError \<or> e = TypeError"
    by (rule to_numeric_errors)
  moreover have "load_data dt rd df = Inl e"
    unfolding load_data_columns_present [OF h] e by simp
  ultimately show "load_data dt rd df = Inl ValueError \<or> load_data dt rd df = Inl TypeError"
    by blast
qed

lemma dirty_sheet_loaded:
  "load_data read_stamp read_digits dirty_sheet =
     Inr \<lparr>columns = [''id'', ''order_date'', ''after_discount'', ''cogs'', ''sku_id'', ''sku_name'',
                      ''category'', ''sales_value'', ''net_profit''],
          rows = [\<lparr>ident = Some (Num 1), order_date = Some 5, category = Some ''Unknown'',
                   sales_value = 100, cogs = 0, net_profit = 100,
                   sku_id = Some ''p'', sku_name = Some ''sku-p''\<rparr>,
                  \<lparr>ident = Some (Num 1), order_date = None, category = Some ''Unknown'',
                   sales_value = 0, cogs = 7, net_profit = - 7,
                   sku_id = Some ''p'', sku_name = Some ''sku-p''\<rparr>,
                  \<lparr>ident = Some (Num 1), order_date = None, category = Some ''Unknown'',
                   sales_value = 50, cogs = 12, net_profit = 38,
                   sku_id = Some ''p'', sku_name = Some ''sku-p''\<rparr>]\<rparr>"
  by code_simp

lemma bad_cogs_cell:
  "''after_discount'' \<in> set (header bad_cogs_sheet) \<and> ''cogs'' \<in> set (header bad_cogs_sheet) \<and>
   (\<exists>r \<in> set (body bad_cogs_sheet). \<exists>s. raw_cogs r = Some (Text s) \<and> read_digits s = None)"
  by (simp add: bad_cogs_sheet_def mk_raw_def read_digits_def)

theorem load_data_defaults_witness:
  "(\<exists>out. load_data read_stamp read_digits dirty_sheet = Inr out \<and>
      map sales_value (rows out) = [100, 0, 50] \<and> map cogs (rows out) = [0, 7, 12] \<and>
      map category (rows out) = [Some ''Unknown'', Some ''Unknown'', Some ''Unknown'']) \<and>
   ''category'' \<notin> set (header dirty_sheet) \<and>
   raw_cogs (body dirty_sheet ! 0) = None \<and> raw_after_discount (body dirty_sheet ! 1) = None \<and>
   (load_data read_stamp read_digits bad_cogs_sheet = Inl ValueError \<or>
    load_data read_stamp read_digits bad_cogs_sheet = Inl TypeError)"
  using load_data_defaults [of read_stamp read_digits dirty_sheet _ ]
    load_data_defaults [of read_stamp read_digits bad_cogs_sheet] bad_cogs_cell
  by (simp add: dirty_sheet_loaded) (simp add: dirty_sheet_def mk_raw_def)

text \<open>
  C3 as stated fails: a cost cell holding the text \<open>abc\<close> makes \<^verbatim>\<open>load_data\<close> raise
  \<^verbatim>\<open>ValueError\<close>.
\<close>

theorem load_data_raises_counterexample:
  "load_data read_stamp read_digits bad_cogs_sheet = Inl ValueError"
  by code_simp

end
